theory Spec2Isabelle
  imports Main "HOL-Library.Sublist"
begin

section \<open>Package logging: field values\<close>

text \<open>
  \<^verbatim>\<open>type Values map[string]interface{}\<close>. A field value is a piece of data: a number, a
  string or a boolean. A Go map is a reference, so a \<open>Values\<close> or a \<open>log.Fields\<close> variable
  is modelled as a reference into a heap of map objects, and the content of such an
  object as a finite mapping from field names to values.
\<close>

datatype any = IntV int | StrV string | BoolV bool

type_synonym Values = "string \<rightharpoonup> any"

type_synonym Fields = "string \<rightharpoonup> any"

type_synonym map_ref = nat

type_synonym heap = "Fields list"

text \<open>\<^verbatim>\<open>make(Fields, n)\<close> followed by the insertions: a new map object.\<close>

definition alloc :: "Fields \<Rightarrow> heap \<Rightarrow> map_ref \<times> heap" where
  "alloc m h = (length h, h @ [m])"

text \<open>Reading a map variable. A reference to no object is the nil map, which reads as empty.\<close>

definition deref :: "heap \<Rightarrow> map_ref \<Rightarrow> Fields" where
  "deref h r = (if r < length h then h ! r else Map.empty)"

section \<open>The errors of xerrors\<close>

text \<open>
  \<^verbatim>\<open>xerrors.New(msg)\<close> and \<^verbatim>\<open>xerrors.Errorf\<close> without \<^verbatim>\<open>%w\<close> give an error that is its
  message; \<^verbatim>\<open>xerrors.Errorf("...: %w", ..., err)\<close> wraps \<open>err\<close> behind the formatted
  prefix. \<open>Error\<close> is the method \<^verbatim>\<open>Error() string\<close>.
\<close>

datatype error = errorString string | wrapError string error

text \<open>The character \<^verbatim>\<open>'\<close> of the format strings.\<close>

definition apostrophe :: string where
  "apostrophe = [CHR 0x27]"

fun Error :: "error \<Rightarrow> string" where
  "Error (errorString s) = s"
| "Error (wrapError msg err) = msg @ Error err"

section \<open>The logging library (github.com/sirupsen/logrus)\<close>

text \<open>
  Modelled from the spec: the adapter delegates to the library logrus, whose code is not
  among the sources. The parts of it the adapter touches are modelled after the spec's
  account of them and the library's documentation: the level enumeration, the hooks
  registered on a logger, the logger's settings, and \<open>WithFields\<close>, whose result holds
  the union of the entry's fields and the new ones, new keys overriding old. The level
  parser, which the constructor calls, is a parameter of the constructor below.
\<close>

datatype log_Level = log_PanicLevel | log_FatalLevel | log_ErrorLevel | log_WarnLevel
  | log_InfoLevel | log_DebugLevel | log_TraceLevel

datatype fieldKey = FieldKeyMsg | FieldKeyLevel | FieldKeyTime | FieldKeyLogrusError
  | FieldKeyFunc | FieldKeyFile

record JSONFormatter =
  TimestampFormat :: string
  FieldMap :: "fieldKey \<rightharpoonup> string"

datatype Formatter = TextFormatter | JSON JSONFormatter

datatype Writer = Stdout | Stderr | File nat | MultiWriter "Writer list"

record Hook =
  hook_name :: string
  Levels :: "log_Level list"

record log_Logger =
  Out :: Writer
  Hooks :: "log_Level \<Rightarrow> Hook list"
  Formatter :: Formatter
  ReportCaller :: bool
  Level :: log_Level

text \<open>
  Modelled from the spec: \<^verbatim>\<open>log.New()\<close> of the library. Standard error, the text
  formatter, no hook, level info; the constructor below overwrites all but the hooks.
\<close>

definition log_New :: log_Logger where
  "log_New = \<lparr>Out = Stderr, Hooks = (\<lambda>_. []), Formatter = TextFormatter,
     ReportCaller = False, Level = log_InfoLevel\<rparr>"

text \<open>
  Modelled from the spec: \<^verbatim>\<open>(*log.Logger).AddHook\<close> of the library, which registers the
  hook on the logger: \<^verbatim>\<open>LevelHooks.Add\<close> appends it to the list of each level it fires on.
\<close>

fun LevelHooks_Add :: "(log_Level \<Rightarrow> Hook list) \<Rightarrow> Hook \<Rightarrow> log_Level list \<Rightarrow> (log_Level \<Rightarrow> Hook list)" where
  "LevelHooks_Add hooks hook [] = hooks"
| "LevelHooks_Add hooks hook (level # levels) =
     LevelHooks_Add (hooks(level := hooks level @ [hook])) hook levels"

definition log_AddHook :: "log_Logger \<Rightarrow> Hook \<Rightarrow> log_Logger" where
  "log_AddHook logger hook = logger\<lparr>Hooks := LevelHooks_Add (Hooks logger) hook (Levels hook)\<rparr>"

text \<open>
  \<^verbatim>\<open>log.Entry\<close>: of its fields the adapter reads \<open>Data\<close>, the entry's field map.
\<close>

record log_Entry =
  Data :: map_ref

text \<open>
  Modelled from the spec: \<^verbatim>\<open>(*log.Entry).WithFields\<close> of the library. A new map holding
  the entry's fields, overwritten by the new ones, in a new entry. The receiver's map is
  read, never written.
\<close>

definition log_Entry_WithFields :: "log_Entry \<Rightarrow> Fields \<Rightarrow> heap \<Rightarrow> log_Entry \<times> heap" where
  "log_Entry_WithFields e flds h =
     (case alloc (deref h (Data e) ++ flds) h of
        (data, h') \<Rightarrow> (\<lparr>Data = data\<rparr>, h'))"

text \<open>
  Modelled from the spec: \<^verbatim>\<open>(*log.Logger).WithFields\<close> of the library. An entry with an
  empty field map of its own is taken (\<open>newEntry\<close>), and \<open>WithFields\<close> is called on it.
\<close>

definition log_Logger_WithFields :: "log_Logger \<Rightarrow> Fields \<Rightarrow> heap \<Rightarrow> log_Entry \<times> heap" where
  "log_Logger_WithFields logger flds h =
     (case alloc Map.empty h of
        (data, h1) \<Rightarrow> log_Entry_WithFields \<lparr>Data = data\<rparr> flds h1)"

section \<open>Package logrus of the repository: the adapter\<close>

subsection \<open>Level names\<close>

definition DebugLevel :: string where "DebugLevel = ''debug''"

definition InfoLevel :: string where "InfoLevel = ''info''"

definition WarnLevel :: string where "WarnLevel = ''warning''"

definition ErrorLevel :: string where "ErrorLevel = ''error''"

definition FatalLevel :: string where "FatalLevel = ''fatal''"

definition PanicLevel :: string where "PanicLevel = ''panic''"

subsection \<open>Entries and the root logger\<close>

text \<open>
  A channel is identified by a number; a channel variable may be nil (\<open>None\<close>).
  \<^verbatim>\<open>entry{*log.Entry, breaker}\<close> and \<^verbatim>\<open>ContextLogger{*log.Logger, mutex, breaker}\<close>.
  The model is sequential, so the mutex, which \<open>AddHooks\<close> takes and releases around its
  loop, has no field.
\<close>

type_synonym chan = nat

record entry =
  Entry :: log_Entry
  breaker :: "chan option"

record ContextLogger =
  Logger :: log_Logger
  breaker :: "chan option"

subsection \<open>Contexts\<close>

text \<open>
  A \<^verbatim>\<open>context.Context\<close> is the background context or a parent extended by one key and
  value (\<^verbatim>\<open>context.WithValue\<close>); \<open>Value\<close> returns the innermost value stored under a
  key, or nil. \<open>ctxValue\<close> is the package's key, a pointer no other package can name.
  The values told apart are the ones the type assertion \<^verbatim>\<open>.(*entry)\<close> tells apart: a
  pointer to an adapter entry (possibly nil), a pointer to a library entry, anything else.
\<close>

datatype ckey = ctxValue | foreign_key string

datatype cvalue = entry_ptr "entry option" | log_Entry_ptr log_Entry | foreign_value string

datatype Context = Background | WithValue Context ckey cvalue

fun Value :: "Context \<Rightarrow> ckey \<Rightarrow> cvalue option" where
  "Value Background k = None"
| "Value (WithValue parent key val) k = (if k = key then Some val else Value parent k)"

text \<open>\<^verbatim>\<open>x, _ := v.(*entry)\<close>: the pointer when \<open>v\<close> holds one, nil otherwise.\<close>

fun assert_entry :: "cvalue option \<Rightarrow> entry option" where
  "assert_entry (Some (entry_ptr p)) = p"
| "assert_entry _ = None"

subsection \<open>Methods of entry\<close>

definition entry_WithValues :: "entry \<Rightarrow> Values \<Rightarrow> heap \<Rightarrow> entry \<times> heap" where
  "entry_WithValues e v h =
     (case log_Entry_WithFields (Entry e) v h of
        (le, h') \<Rightarrow> (\<lparr>Entry = le, breaker = entry.breaker e\<rparr>, h'))"

text \<open>\<open>GetValues\<close> converts the entry's own map: the result is the same map object.\<close>

definition entry_GetValues :: "entry \<Rightarrow> map_ref" where
  "entry_GetValues e = Data (Entry e)"

definition entry_FromContext :: "entry \<Rightarrow> Context \<Rightarrow> entry option" where
  "entry_FromContext e ctx =
     (let logger = assert_entry (Value ctx ctxValue)
      in if logger = None then None else logger)"

definition entry_NewContext :: "entry \<Rightarrow> Context \<Rightarrow> Context" where
  "entry_NewContext e ctx = WithValue ctx ctxValue (entry_ptr (Some e))"

subsection \<open>Methods of ContextLogger\<close>

definition ContextLogger_WithValues :: "ContextLogger \<Rightarrow> Values \<Rightarrow> heap \<Rightarrow> entry \<times> heap" where
  "ContextLogger_WithValues cl v h =
     (case log_Logger_WithFields (Logger cl) v h of
        (le, h') \<Rightarrow> (\<lparr>Entry = le, breaker = ContextLogger.breaker cl\<rparr>, h'))"

definition ContextLogger_FromContext :: "ContextLogger \<Rightarrow> Context \<Rightarrow> entry option" where
  "ContextLogger_FromContext cl ctx =
     (let e = assert_entry (Value ctx ctxValue)
      in if e = None then None else e)"

text \<open>
  The value stored is what \<^verbatim>\<open>cl.WithFields(log.Fields(nil))\<close> returns: a \<^verbatim>\<open>*log.Entry\<close>
  of the library.
\<close>

definition ContextLogger_NewContext :: "ContextLogger \<Rightarrow> Context \<Rightarrow> heap \<Rightarrow> Context \<times> heap" where
  "ContextLogger_NewContext cl ctx h =
     (case log_Logger_WithFields (Logger cl) Map.empty h of
        (le, h') \<Rightarrow> (WithValue ctx ctxValue (log_Entry_ptr le), h'))"

text \<open>\<^verbatim>\<open>logging.Values(log.Fields{})\<close>: a new, empty map at every call.\<close>

definition ContextLogger_GetValues :: "ContextLogger \<Rightarrow> heap \<Rightarrow> map_ref \<times> heap" where
  "ContextLogger_GetValues cl h = alloc Map.empty h"

subsection \<open>AddHooks\<close>

text \<open>
  An argument of \<open>AddHooks\<close> is an \<^verbatim>\<open>interface{}\<close>: nil, a value whose type implements
  \<^verbatim>\<open>log.Hook\<close>, or a value of another type, given by its \<^verbatim>\<open>%+v\<close> rendering.
  \<open>assert_Hook\<close> is \<^verbatim>\<open>hook, ok := v.(log.Hook)\<close>.
\<close>

datatype arg = nil_arg | hook_arg Hook | other_arg string

fun assert_Hook :: "arg \<Rightarrow> Hook option \<times> bool" where
  "assert_Hook (hook_arg hook) = (Some hook, True)"
| "assert_Hook v = (None, False)"

fun fmt_arg :: "arg \<Rightarrow> string" where
  "fmt_arg nil_arg = ''<nil>''"
| "fmt_arg (hook_arg hook) = hook_name hook"
| "fmt_arg (other_arg s) = s"

definition hook_mismatch :: "arg \<Rightarrow> error" where
  "hook_mismatch v =
     errorString (''value '' @ apostrophe @ fmt_arg v @ apostrophe @ '' is does not match the interface Hook'')"

fun AddHooks :: "ContextLogger \<Rightarrow> arg list \<Rightarrow> error option \<times> ContextLogger" where
  "AddHooks cl [] = (None, cl)"
| "AddHooks cl (v # hooks) =
     (case assert_Hook v of
        (Some hook, True) \<Rightarrow> AddHooks (cl\<lparr>Logger := log_AddHook (Logger cl) hook\<rparr>) hooks
      | _ \<Rightarrow> (Some (hook_mismatch v), cl))"

subsection \<open>The operating system's files\<close>

text \<open>
  \<^verbatim>\<open>os.OpenFile(name, flag, perm)\<close>. The state of the operating system, as far as the
  constructor can change it, is the list of calls made and the list of files open, a
  file's descriptor being its place in that list. Whether a path can be opened is the
  file system's answer, a parameter: \<open>fsys name\<close> is the error of opening \<open>name\<close>, or
  \<open>None\<close> when it opens. \<open>os_Close\<close> is \<^verbatim>\<open>(*os.File).Close\<close>.
\<close>

datatype OpenFlag = O_APPEND | O_WRONLY | O_CREATE | O_RDONLY | O_RDWR | O_TRUNC

record OpenCall =
  path :: string
  flag :: "OpenFlag set"
  perm :: nat

record OS =
  calls :: "OpenCall list"
  opened :: "OpenCall list"
  closed :: "nat set"

text \<open>The permission bits written \<^verbatim>\<open>0600\<close> in Go: octal.\<close>

definition perm_0600 :: nat where
  "perm_0600 = 6 * 8 ^ 2 + 0 * 8 + 0"

definition os_OpenFile ::
  "(string \<Rightarrow> error option) \<Rightarrow> string \<Rightarrow> OpenFlag set \<Rightarrow> nat \<Rightarrow> OS \<Rightarrow> (error + Writer) \<times> OS" where
  "os_OpenFile fsys name flg prm os =
     (let os1 = os\<lparr>calls := calls os @ [\<lparr>path = name, flag = flg, perm = prm\<rparr>]\<rparr>
      in case fsys name of
           Some err \<Rightarrow> (Inl err, os1)
         | None \<Rightarrow> (Inr (File (length (opened os1))),
                     os1\<lparr>opened := opened os1 @ [\<lparr>path = name, flag = flg, perm = prm\<rparr>]\<rparr>))"

definition os_Close :: "nat \<Rightarrow> OS \<Rightarrow> OS" where
  "os_Close fd os = os\<lparr>closed := insert fd (closed os)\<rparr>"

text \<open>The files of a state that are open: opened and not closed since.\<close>

definition open_files :: "OS \<Rightarrow> nat set" where
  "open_files os = {fd. fd < length (opened os)} - closed os"

subsection \<open>The constructor\<close>

text \<open>
  The loop of \<open>New\<close> over \<open>outputs\<close>: each path is opened for appending and its file is
  appended to the writers; the first open that fails ends the constructor with the
  error, wrapped with the path.
\<close>

fun open_outputs ::
  "(string \<Rightarrow> error option) \<Rightarrow> string list \<Rightarrow> Writer list \<Rightarrow> OS \<Rightarrow> (error + Writer list) \<times> OS" where
  "open_outputs fsys [] writers os = (Inr writers, os)"
| "open_outputs fsys (v # outputs) writers os =
     (case os_OpenFile fsys v {O_APPEND, O_WRONLY, O_CREATE} perm_0600 os of
        (Inl err, os') \<Rightarrow>
          (Inl (wrapError (''error open file path '' @ apostrophe @ v @ apostrophe @ '': '') err), os')
      | (Inr file, os') \<Rightarrow> open_outputs fsys outputs (writers @ [file]) os')"

text \<open>
  \<open>New\<close>. \<open>ParseLevel\<close> is the library's \<^verbatim>\<open>log.ParseLevel\<close> and \<open>fsys\<close> the file system;
  the result is the error or the logger, and the state of the operating system after
  the call.
\<close>

definition New ::
  "(string \<Rightarrow> error + log_Level) \<Rightarrow> (string \<Rightarrow> error option) \<Rightarrow>
   chan option \<Rightarrow> string \<Rightarrow> string list \<Rightarrow> OS \<Rightarrow> (error + ContextLogger) \<times> OS" where
  "New ParseLevel fsys brk level outputs os =
     (if brk = None then (Inl (errorString ''breaker can't be nil''), os)
      else
        let logger = log_New;
            logger = logger\<lparr>Formatter := JSON \<lparr>
              TimestampFormat = ''02.01.2006 15:04:05'',
              FieldMap = [FieldKeyFile \<mapsto> ''file'',
                          FieldKeyFunc \<mapsto> ''func'',
                          FieldKeyLogrusError \<mapsto> ''logger_error'',
                          FieldKeyTime \<mapsto> ''timestamp'',
                          FieldKeyLevel \<mapsto> ''level'',
                          FieldKeyMsg \<mapsto> ''message'']\<rparr>\<rparr>
        in case open_outputs fsys outputs [Stdout] os of
             (Inl err, os') \<Rightarrow> (Inl err, os')
           | (Inr writers, os') \<Rightarrow>
               let logger = logger\<lparr>Out := MultiWriter writers\<rparr>;
                   logger = logger\<lparr>ReportCaller := True\<rparr>
               in case ParseLevel level of
                    Inl err \<Rightarrow>
                      (Inl (wrapError (''error parse level value '' @ apostrophe @ level @ apostrophe @ '': '') err), os')
                  | Inr lvl \<Rightarrow>
                      (Inr \<lparr>Logger = logger\<lparr>Level := lvl\<rparr>, breaker = brk\<rparr>, os'))"

section \<open>Auxiliary notions for the properties\<close>

text \<open>
  The destinations a write to a writer reaches: \<^verbatim>\<open>io.MultiWriter\<close> writes to each of
  its writers in turn.
\<close>

fun destinations :: "Writer \<Rightarrow> Writer list" where
  "destinations (MultiWriter ws) = concat (map destinations ws)"
| "destinations w = [w]"

text \<open>
  A layout of Go's \<^verbatim>\<open>time\<close> package spells a pattern with the fields of the reference
  time \<^verbatim>\<open>02.01.2006 15:04:05\<close>. \<open>layout_pattern\<close> reads the zero-padded numeric fields
  (day \<^verbatim>\<open>02\<close>, month \<^verbatim>\<open>01\<close>, year \<^verbatim>\<open>2006\<close>, hour \<^verbatim>\<open>15\<close>, minute \<^verbatim>\<open>04\<close>, second \<^verbatim>\<open>05\<close>)
  and copies every other character.
\<close>

fun layout_pattern :: "string \<Rightarrow> string" where
  "layout_pattern [] = []"
| "layout_pattern (c # s) =
     (if take 4 (c # s) = ''2006'' then ''YYYY'' @ layout_pattern (drop 3 s)
      else if take 2 (c # s) = ''02'' then ''DD'' @ layout_pattern (drop 1 s)
      else if take 2 (c # s) = ''01'' then ''MM'' @ layout_pattern (drop 1 s)
      else if take 2 (c # s) = ''15'' then ''HH'' @ layout_pattern (drop 1 s)
      else if take 2 (c # s) = ''04'' then ''MM'' @ layout_pattern (drop 1 s)
      else if take 2 (c # s) = ''05'' then ''SS'' @ layout_pattern (drop 1 s)
      else c # layout_pattern s)"

text \<open>The call of \<open>os.OpenFile\<close> that \<open>New\<close> makes for the path \<open>v\<close>.\<close>

definition append_call :: "string \<Rightarrow> OpenCall" where
  "append_call v = \<lparr>path = v, flag = {O_APPEND, O_WRONLY, O_CREATE}, perm = perm_0600\<rparr>"

text \<open>An argument of \<open>AddHooks\<close> that passes its check.\<close>

definition conforming :: "arg \<Rightarrow> bool" where
  "conforming v = (case assert_Hook v of (Some hook, True) \<Rightarrow> True | _ \<Rightarrow> False)"

text \<open>
  An entry derived from the root logger by a first \<open>WithValues\<close> and from an entry by
  further ones.
\<close>

fun entry_chain :: "entry \<Rightarrow> Values list \<Rightarrow> heap \<Rightarrow> entry \<times> heap" where
  "entry_chain e [] h = (e, h)"
| "entry_chain e (v # vs) h =
     (case entry_WithValues e v h of (e', h') \<Rightarrow> entry_chain e' vs h')"

definition derive :: "ContextLogger \<Rightarrow> Values \<Rightarrow> Values list \<Rightarrow> heap \<Rightarrow> entry \<times> heap" where
  "derive cl v vs h =
     (case ContextLogger_WithValues cl v h of (e, h') \<Rightarrow> entry_chain e vs h')"

text \<open>
  Concrete surroundings for evaluating the constructor. \<open>log_ParseLevel\<close> is modelled
  from the spec and the library's documentation: \<^verbatim>\<open>log.ParseLevel\<close> on ASCII level
  names, lower-cased and compared with the names of the library's levels (the six of
  the spec, and \<^verbatim>\<open>warn\<close> and \<^verbatim>\<open>trace\<close>); its error puts the input between double
  quotes, which is the library's text for inputs of letters and digits (the library
  escapes quotes, backslashes and control characters, and lower-cases beyond ASCII;
  the model does neither). \<open>fsys_ok\<close> is a file
  system that opens every path, \<open>fsys_without\<close> one that refuses the paths of a list, and
  \<open>os0\<close> the operating system before any call. The properties of the constructor hold
  for every parser and file system; these serve to evaluate it.
\<close>

definition ToLower :: "string \<Rightarrow> string" where
  "ToLower s = map (\<lambda>c. let n = (of_char c :: nat) in
                         if 65 \<le> n \<and> n \<le> 90 then char_of (n + 32) else c) s"

definition log_ParseLevel :: "string \<Rightarrow> error + log_Level" where
  "log_ParseLevel lvl =
     (let l = ToLower lvl in
      if l = ''panic'' then Inr log_PanicLevel
      else if l = ''fatal'' then Inr log_FatalLevel
      else if l = ''error'' then Inr log_ErrorLevel
      else if l = ''warn'' \<or> l = ''warning'' then Inr log_WarnLevel
      else if l = ''info'' then Inr log_InfoLevel
      else if l = ''debug'' then Inr log_DebugLevel
      else if l = ''trace'' then Inr log_TraceLevel
      else Inl (errorString (''not a valid logrus Level: '' @ [CHR 0x22] @ lvl @ [CHR 0x22])))"

definition fsys_ok :: "string \<Rightarrow> error option" where
  "fsys_ok name = None"

definition fsys_without :: "string list \<Rightarrow> string \<Rightarrow> error option" where
  "fsys_without missing name =
     (if name \<in> set missing then Some (errorString (''open '' @ name @ '': no such file or directory'')) else None)"

definition os0 :: OS where
  "os0 = \<lparr>calls = [], opened = [], closed = {}\<rparr>"

text \<open>
  The root logger that \<open>New\<close> returns for channel \<open>0\<close>, level \<open>info\<close> and the one
  output \<open>app.log\<close>, and the operating system after that call.
\<close>

definition root0 :: ContextLogger where
  "root0 = \<lparr>Logger = \<lparr>Out = MultiWriter [Stdout, File 0], Hooks = (\<lambda>_. []),
       Formatter = JSON \<lparr>
         TimestampFormat = ''02.01.2006 15:04:05'',
         FieldMap = [FieldKeyFile \<mapsto> ''file'',
                     FieldKeyFunc \<mapsto> ''func'',
                     FieldKeyLogrusError \<mapsto> ''logger_error'',
                     FieldKeyTime \<mapsto> ''timestamp'',
                     FieldKeyLevel \<mapsto> ''level'',
                     FieldKeyMsg \<mapsto> ''message'']\<rparr>,
       ReportCaller = True, Level = log_InfoLevel\<rparr>, breaker = Some 0\<rparr>"

definition os1 :: OS where
  "os1 = \<lparr>calls = [append_call ''app.log''], opened = [append_call ''app.log''], closed = {}\<rparr>"

definition hook0 :: Hook where
  "hook0 = \<lparr>hook_name = ''graylog'', Levels = [log_InfoLevel]\<rparr>"

text \<open>The hooks among a list of arguments of \<open>AddHooks\<close>, in order.\<close>

fun the_hooks :: "arg list \<Rightarrow> Hook list" where
  "the_hooks [] = []"
| "the_hooks (hook_arg hook # vs) = hook # the_hooks vs"
| "the_hooks (v # vs) = the_hooks vs"

text \<open>The six level names the package declares.\<close>

definition level_names :: "string list" where
  "level_names = [DebugLevel, InfoLevel, WarnLevel, ErrorLevel, FatalLevel, PanicLevel]"

text \<open>The keys a context was extended with, innermost first.\<close>

fun keys_of :: "Context \<Rightarrow> ckey list" where
  "keys_of Background = []"
| "keys_of (WithValue parent key val) = key # keys_of parent"

section \<open>The heap of field maps\<close>

lemma log_Entry_WithFields_new:
  "log_Entry_WithFields e flds h = (e', h') \<Longrightarrow> deref h' (Data e') = deref h (Data e) ++ flds"
  by (auto simp: log_Entry_WithFields_def alloc_def deref_def split: prod.splits)

lemma log_Entry_WithFields_old:
  "log_Entry_WithFields e flds h = (e', h') \<Longrightarrow> r < length h \<Longrightarrow> deref h' r = deref h r"
  by (auto simp: log_Entry_WithFields_def alloc_def deref_def nth_append split: prod.splits)

lemma log_Logger_WithFields_new:
  "log_Logger_WithFields lg flds h = (e', h') \<Longrightarrow> deref h' (Data e') = flds"
  by (auto simp: log_Logger_WithFields_def log_Entry_WithFields_def alloc_def deref_def nth_append
      split: prod.splits)

lemma log_Logger_WithFields_old:
  "log_Logger_WithFields lg flds h = (e', h') \<Longrightarrow> r < length h \<Longrightarrow> deref h' r = deref h r"
  by (auto simp: log_Logger_WithFields_def log_Entry_WithFields_def alloc_def deref_def nth_append
      split: prod.splits)

lemma root0_WithValues_a:
  "ContextLogger_WithValues root0 [''a'' \<mapsto> IntV 1] [] =
     (\<lparr>Entry = \<lparr>Data = Suc 0\<rparr>, breaker = Some 0\<rparr>, [Map.empty, [''a'' \<mapsto> IntV 1]])"
  by (simp add: ContextLogger_WithValues_def log_Logger_WithFields_def log_Entry_WithFields_def
      alloc_def deref_def root0_def)

lemma entry_chain_fields:
  "entry_chain e vs h = (e', h') \<Longrightarrow>
     deref h' (entry_GetValues e') = foldl (++) (deref h (entry_GetValues e)) vs"
proof (induction vs arbitrary: e h)
  case Nil
  then show ?case by simp
next
  case (Cons v vs)
  obtain e1 h1 where s: "entry_WithValues e v h = (e1, h1)"
    by (cases "entry_WithValues e v h")
  from s obtain le where le: "log_Entry_WithFields (Entry e) v h = (le, h1)" and e1: "Entry e1 = le"
    by (auto simp: entry_WithValues_def split: prod.splits)
  have a: "deref h1 (entry_GetValues e1) = deref h (entry_GetValues e) ++ v"
    using log_Entry_WithFields_new [OF le] e1 by (simp add: entry_GetValues_def)
  from Cons.prems s have "entry_chain e1 vs h1 = (e', h')" by simp
  from Cons.IH [OF this] a show ?case by simp
qed

section \<open>Field chaining\<close>

text \<open>
  Claim C4. \<open>WithValues\<close> on an entry returns a new entry whose field map is the entry's
  fields overwritten by the supplied values (the union, new keys winning), in a map of
  its own: every map that existed before the call, the receiver's included, reads as
  before, and the shutdown channel is shared. \<open>WithValues\<close> on the root logger returns
  an entry whose fields are the supplied values. The example of the claim is
  evaluated after the theorem: from the root, \<open>{"a":1}\<close> then \<open>{"b":2}\<close> reads \<open>{"a":1,"b":2}\<close>, and the
  intermediate entry still reads \<open>{"a":1}\<close> afterwards.
\<close>

theorem WithValues_merges_into_new_map:
  "(case entry_WithValues e v h of (e', h') \<Rightarrow>
      deref h' (entry_GetValues e') = deref h (entry_GetValues e) ++ v
      \<and> (\<forall>r<length h. deref h' r = deref h r)
      \<and> entry.breaker e' = entry.breaker e)
   \<and> (case ContextLogger_WithValues cl v h of (e', h') \<Rightarrow>
      deref h' (entry_GetValues e') = v
      \<and> (\<forall>r<length h. deref h' r = deref h r)
      \<and> entry.breaker e' = ContextLogger.breaker cl)"
proof -
  obtain le h1 where a: "log_Entry_WithFields (Entry e) v h = (le, h1)"
    by (cases "log_Entry_WithFields (Entry e) v h")
  obtain le2 h2 where b: "log_Logger_WithFields (Logger cl) v h = (le2, h2)"
    by (cases "log_Logger_WithFields (Logger cl) v h")
  show ?thesis
    using log_Entry_WithFields_new [OF a] log_Entry_WithFields_old [OF a]
      log_Logger_WithFields_new [OF b] log_Logger_WithFields_old [OF b]
    by (simp add: entry_WithValues_def ContextLogger_WithValues_def entry_GetValues_def a b)
qed

theorem WithValues_merges_into_new_map_witness:
  "(case ContextLogger_WithValues root0 [''a'' \<mapsto> IntV 1] [] of (e1, h1) \<Rightarrow>
      (case entry_WithValues e1 [''b'' \<mapsto> IntV 2] h1 of (e2, h2) \<Rightarrow>
          deref h2 (entry_GetValues e2) = [''a'' \<mapsto> IntV 1, ''b'' \<mapsto> IntV 2]
        \<and> deref h1 (entry_GetValues e1) = [''a'' \<mapsto> IntV 1]
        \<and> deref h2 (entry_GetValues e1) = [''a'' \<mapsto> IntV 1]
        \<and> entry_GetValues e1 < length h1))"
proof -
  let ?e1 = "\<lparr>Entry = \<lparr>Data = Suc 0\<rparr>, breaker = Some 0\<rparr>"
  let ?h1 = "[Map.empty, [''a'' \<mapsto> IntV 1]]"
  obtain e2 h2 where s: "entry_WithValues ?e1 [''b'' \<mapsto> IntV 2] ?h1 = (e2, h2)"
    by (cases "entry_WithValues ?e1 [''b'' \<mapsto> IntV 2] ?h1")
  have g: "entry_GetValues ?e1 = Suc 0" "deref ?h1 (Suc 0) = [''a'' \<mapsto> IntV 1]"
    by (simp_all add: entry_GetValues_def deref_def)
  from WithValues_merges_into_new_map
    [where e = ?e1 and v = "[''b'' \<mapsto> IntV 2]" and h = ?h1 and cl = root0]
  have "deref h2 (entry_GetValues e2) = deref ?h1 (entry_GetValues ?e1) ++ [''b'' \<mapsto> IntV 2]"
    and "\<forall>r<length ?h1. deref h2 r = deref ?h1 r"
    unfolding s prod.case by blast+
  then have "deref h2 (entry_GetValues e2) = [''a'' \<mapsto> IntV 1, ''b'' \<mapsto> IntV 2]"
    and "deref h2 (Suc 0) = [''a'' \<mapsto> IntV 1]"
    by (simp_all add: g)
  then show ?thesis
    by (simp add: root0_WithValues_a s g)
qed

section \<open>GetValues\<close>

text \<open>
  Claim C9. \<open>GetValues\<close> on the root logger returns an empty mapping, whatever the
  logger and the heap are at the call (so after any earlier operation): the map is a new
  one, and the maps that existed are untouched. \<open>GetValues\<close> on an entry derived from
  the root by \<open>WithValues v\<close> and then by \<open>WithValues\<close> of each of \<open>vs\<close> reads the fields
  accumulated on the way: \<open>v\<close> overwritten by each of \<open>vs\<close> in turn.
\<close>

theorem GetValues_root_empty_entry_accumulated:
  "(case ContextLogger_GetValues cl h of (r, h') \<Rightarrow>
      deref h' r = Map.empty \<and> r = length h \<and> take (length h) h' = h)
   \<and> (case derive cl v vs h of (e, h') \<Rightarrow>
      deref h' (entry_GetValues e) = foldl (++) v vs)"
proof -
  obtain e1 h1 where s: "ContextLogger_WithValues cl v h = (e1, h1)"
    by (cases "ContextLogger_WithValues cl v h")
  then obtain le where le: "log_Logger_WithFields (Logger cl) v h = (le, h1)" and e1: "Entry e1 = le"
    by (auto simp: ContextLogger_WithValues_def split: prod.splits)
  have a: "deref h1 (entry_GetValues e1) = v"
    using log_Logger_WithFields_new [OF le] e1 by (simp add: entry_GetValues_def)
  obtain e2 h2 where c: "entry_chain e1 vs h1 = (e2, h2)"
    by (cases "entry_chain e1 vs h1")
  from entry_chain_fields [OF c] a have "deref h2 (entry_GetValues e2) = foldl (++) v vs" by simp
  then show ?thesis
    by (simp add: ContextLogger_GetValues_def alloc_def deref_def derive_def s c)
qed

section \<open>Entries in contexts\<close>

text \<open>
  An entry stored by an entry's \<open>NewContext\<close> is found again by \<open>FromContext\<close>, of an
  entry and of the root logger alike, and a context that was never extended under the
  package's key holds no entry.
\<close>

lemma entry_NewContext_FromContext:
  "entry_FromContext e1 (entry_NewContext e ctx) = Some e"
  "ContextLogger_FromContext cl (entry_NewContext e ctx) = Some e"
  by (simp_all add: entry_FromContext_def ContextLogger_FromContext_def entry_NewContext_def)

lemma Value_untouched: "ctxValue \<notin> set (keys_of ctx) \<Longrightarrow> Value ctx ctxValue = None"
  by (induction ctx) auto

lemma FromContext_untouched:
  "ctxValue \<notin> set (keys_of ctx) \<Longrightarrow>
     entry_FromContext e ctx = None \<and> ContextLogger_FromContext cl ctx = None"
  by (simp add: entry_FromContext_def ContextLogger_FromContext_def Value_untouched)

text \<open>
  Claim C1, at the root logger. \<open>NewContext\<close> of the root logger stores the library's
  entry that \<open>WithFields\<close> returns, not an entry of the adapter, so the type assertion of
  \<open>FromContext\<close> fails on it: \<open>FromContext\<close> of the context just made returns nil, for
  the root logger and for every entry, on every context and heap.
\<close>

theorem root_NewContext_not_found:
  "ContextLogger_FromContext cl (fst (ContextLogger_NewContext cl ctx h)) = None
   \<and> entry_FromContext e (fst (ContextLogger_NewContext cl ctx h)) = None"
  by (simp add: ContextLogger_FromContext_def entry_FromContext_def ContextLogger_NewContext_def
      split: prod.splits)

section \<open>Hook registration\<close>

lemma conforming_simps:
  "conforming (hook_arg hook) = True"
  "conforming nil_arg = False"
  "conforming (other_arg s) = False"
  by (simp_all add: conforming_def)

lemma AddHooks_prefix:
  "\<not> list_all conforming hooks \<Longrightarrow>
     AddHooks cl hooks =
       (Some (hook_mismatch (hd (dropWhile conforming hooks))),
        snd (AddHooks cl (takeWhile conforming hooks)))"
proof (induction hooks arbitrary: cl)
  case Nil
  then show ?case by simp
next
  case (Cons v hooks)
  show ?case
  proof (cases v)
    case (hook_arg hook)
    with Cons.prems have "\<not> list_all conforming hooks" by (simp add: conforming_simps)
    from Cons.IH [OF this] hook_arg show ?thesis by (simp add: conforming_simps)
  qed (simp_all add: conforming_simps)
qed

lemma LevelHooks_Add_at:
  "LevelHooks_Add hooks hook levels l = hooks l @ replicate (count_list levels l) hook"
  by (induction levels arbitrary: hooks) (simp_all add: replicate_append_same)

lemma Hooks_log_AddHook:
  "Hooks (log_AddHook lg hook) l = Hooks lg l @ replicate (count_list (Levels hook) l) hook"
  by (simp add: log_AddHook_def LevelHooks_Add_at)

lemma Hooks_foldl_log_AddHook:
  "Hooks (foldl log_AddHook lg hs) l =
     Hooks lg l @ concat (map (\<lambda>hook. replicate (count_list (Levels hook) l) hook) hs)"
  by (induction hs arbitrary: lg) (simp_all add: Hooks_log_AddHook)

lemma AddHooks_all_conforming:
  "list_all conforming hooks \<Longrightarrow>
     AddHooks cl hooks = (None, cl\<lparr>Logger := foldl log_AddHook (Logger cl) (the_hooks hooks)\<rparr>)"
proof (induction hooks arbitrary: cl)
  case Nil
  then show ?case by simp
next
  case (Cons v hooks)
  then show ?case by (cases v) (simp_all add: conforming_simps)
qed

text \<open>
  Claim C3, as the code has it. When an argument of \<open>AddHooks\<close> does not satisfy the hook
  capability, the call returns the error that names the first such argument, and the
  conforming arguments that precede it are registered: the logger after the call is the
  logger before it with the library's \<open>AddHook\<close> applied to each of those hooks in
  order, so on every level the hooks are those of before followed by each of them, once
  per occurrence of the level among the levels it fires on. No argument from the first
  non-conforming one on is registered. It is the logger a call with that prefix alone
  leaves, and that call succeeds.
\<close>

theorem AddHooks_registers_conforming_prefix:
  assumes "\<exists>v \<in> set hooks. \<not> conforming v"
  shows "fst (AddHooks cl hooks) = Some (hook_mismatch (hd (dropWhile conforming hooks)))
    \<and> \<not> conforming (hd (dropWhile conforming hooks))
    \<and> snd (AddHooks cl hooks) =
        cl\<lparr>Logger := foldl log_AddHook (Logger cl) (the_hooks (takeWhile conforming hooks))\<rparr>
    \<and> (\<forall>l. Hooks (Logger (snd (AddHooks cl hooks))) l =
          Hooks (Logger cl) l @
          concat (map (\<lambda>hook. replicate (count_list (Levels hook) l) hook)
            (the_hooks (takeWhile conforming hooks))))
    \<and> snd (AddHooks cl hooks) = snd (AddHooks cl (takeWhile conforming hooks))
    \<and> fst (AddHooks cl (takeWhile conforming hooks)) = None"
proof -
  from assms have n: "\<not> list_all conforming hooks" by (simp add: list_all_iff)
  then have "dropWhile conforming hooks \<noteq> []" by (simp add: list_all_iff)
  then have d: "\<not> conforming (hd (dropWhile conforming hooks))" by (rule hd_dropWhile)
  have "list_all conforming (takeWhile conforming hooks)"
    by (simp add: list_all_iff) (meson set_takeWhileD)
  from AddHooks_all_conforming [OF this, of cl]
  have p: "AddHooks cl (takeWhile conforming hooks) =
      (None, cl\<lparr>Logger := foldl log_AddHook (Logger cl) (the_hooks (takeWhile conforming hooks))\<rparr>)" .
  from AddHooks_prefix [OF n, of cl] p
  have a: "AddHooks cl hooks = (Some (hook_mismatch (hd (dropWhile conforming hooks))),
      cl\<lparr>Logger := foldl log_AddHook (Logger cl) (the_hooks (takeWhile conforming hooks))\<rparr>)"
    by simp
  show ?thesis
    unfolding a p using d by (simp add: Hooks_foldl_log_AddHook)
qed

theorem AddHooks_registers_conforming_prefix_witness:
  "(\<exists>v \<in> set [hook_arg hook0, other_arg ''42'']. \<not> conforming v)
   \<and> fst (AddHooks root0 [hook_arg hook0, other_arg ''42'']) = Some (hook_mismatch (other_arg ''42''))
   \<and> snd (AddHooks root0 [hook_arg hook0, other_arg ''42'']) =
       root0\<lparr>Logger := log_AddHook (Logger root0) hook0\<rparr>
   \<and> Hooks (Logger (snd (AddHooks root0 [hook_arg hook0, other_arg ''42'']))) log_InfoLevel = [hook0]
   \<and> Hooks (Logger (snd (AddHooks root0 [hook_arg hook0, other_arg ''42'']))) log_ErrorLevel = []"
proof -
  have h: "\<exists>v \<in> set [hook_arg hook0, other_arg ''42'']. \<not> conforming v"
    by (simp add: conforming_simps)
  have r: "Hooks (Logger root0) l = []" "Levels hook0 = [log_InfoLevel]" for l
    by (simp_all add: root0_def hook0_def)
  from AddHooks_registers_conforming_prefix [OF h, of root0]
  have "fst (AddHooks root0 [hook_arg hook0, other_arg ''42'']) = Some (hook_mismatch (other_arg ''42''))"
    and "snd (AddHooks root0 [hook_arg hook0, other_arg ''42'']) =
       root0\<lparr>Logger := log_AddHook (Logger root0) hook0\<rparr>"
    and "\<forall>l. Hooks (Logger (snd (AddHooks root0 [hook_arg hook0, other_arg ''42'']))) l =
       replicate (count_list [log_InfoLevel] l) hook0"
    by (simp_all add: conforming_simps r)
  then show ?thesis using h by simp
qed

text \<open>
  Claim C3, as stated, fails: with a hook that fires on level info followed by a value
  that is no hook, the call returns an error, and the hook is registered all the same
  (the hooks of level info were none before the call and are that hook after it).
\<close>

theorem AddHooks_partial_counterexample:
  "fst (AddHooks root0 [hook_arg hook0, other_arg ''42'']) \<noteq> None
   \<and> Hooks (Logger root0) log_InfoLevel = []
   \<and> Hooks (Logger (snd (AddHooks root0 [hook_arg hook0, other_arg ''42'']))) log_InfoLevel = [hook0]"
  by (simp add: root0_def hook0_def log_AddHook_def)

section \<open>The constructor\<close>

subsection \<open>Opening the outputs\<close>

lemma os_OpenFile_ok:
  "fsys v = None \<Longrightarrow>
     os_OpenFile fsys v flg prm os =
       (Inr (File (length (opened os))),
        os\<lparr>calls := calls os @ [\<lparr>path = v, flag = flg, perm = prm\<rparr>],
           opened := opened os @ [\<lparr>path = v, flag = flg, perm = prm\<rparr>]\<rparr>)"
  by (simp add: os_OpenFile_def)

lemma os_OpenFile_fail:
  "fsys v = Some e \<Longrightarrow>
     os_OpenFile fsys v flg prm os =
       (Inl e, os\<lparr>calls := calls os @ [\<lparr>path = v, flag = flg, perm = prm\<rparr>]\<rparr>)"
  by (simp add: os_OpenFile_def)

lemma open_outputs_opened:
  "opened (snd (open_outputs fsys outputs ws os)) =
     opened os @ map append_call (takeWhile (\<lambda>v. fsys v = None) outputs)"
proof (induction outputs arbitrary: ws os)
  case Nil
  then show ?case by simp
next
  case (Cons v outputs)
  show ?case
  proof (cases "fsys v")
    case None
    then show ?thesis by (simp add: os_OpenFile_ok Cons.IH append_call_def)
  next
    case (Some e)
    then show ?thesis by (simp add: os_OpenFile_fail)
  qed
qed

lemma open_outputs_closed:
  "closed (snd (open_outputs fsys outputs ws os)) = closed os"
proof (induction outputs arbitrary: ws os)
  case Nil
  then show ?case by simp
next
  case (Cons v outputs)
  show ?case
  proof (cases "fsys v")
    case None
    then show ?thesis by (simp add: os_OpenFile_ok Cons.IH)
  next
    case (Some e)
    then show ?thesis by (simp add: os_OpenFile_fail)
  qed
qed

lemma open_outputs_Inr:
  "open_outputs fsys outputs ws os = (Inr ws', os') \<Longrightarrow>
     (\<forall>v \<in> set outputs. fsys v = None)
     \<and> calls os' = calls os @ map append_call outputs
     \<and> ws' = ws @ map File [length (opened os)..<length (opened os) + length outputs]"
proof (induction outputs arbitrary: ws os)
  case Nil
  then show ?case by simp
next
  case (Cons v outputs)
  show ?case
  proof (cases "fsys v")
    case None
    let ?os1 = "os\<lparr>calls := calls os @ [append_call v], opened := opened os @ [append_call v]\<rparr>"
    from Cons.prems None
    have "open_outputs fsys outputs (ws @ [File (length (opened os))]) ?os1 = (Inr ws', os')"
      by (simp add: os_OpenFile_ok append_call_def)
    from Cons.IH [OF this] None show ?thesis
      by (simp add: upt_conv_Cons [of "length (opened os)"] del: upt_Suc)
  next
    case (Some e)
    with Cons.prems show ?thesis by (simp add: os_OpenFile_fail)
  qed
qed

lemma open_outputs_Inl:
  "open_outputs fsys outputs ws os = (Inl err, os') \<Longrightarrow>
     \<exists>v e. v \<in> set outputs \<and> fsys v = Some e
       \<and> err = wrapError (''error open file path '' @ apostrophe @ v @ apostrophe @ '': '') e"
proof (induction outputs arbitrary: ws os)
  case Nil
  then show ?case by simp
next
  case (Cons v outputs)
  show ?case
  proof (cases "fsys v")
    case None
    with Cons.prems Cons.IH show ?thesis by (fastforce simp: os_OpenFile_ok)
  next
    case (Some e)
    with Cons.prems show ?thesis by (auto simp: os_OpenFile_fail)
  qed
qed

lemma open_outputs_all_ok:
  "\<forall>v \<in> set outputs. fsys v = None \<Longrightarrow> \<exists>ws'. fst (open_outputs fsys outputs ws os) = Inr ws'"
proof (induction outputs arbitrary: ws os)
  case Nil
  then show ?case by simp
next
  case (Cons v outputs)
  then show ?case by (simp add: os_OpenFile_ok)
qed

lemma New_nil: "New ParseLevel fsys None level outputs os = (Inl (errorString ''breaker can't be nil''), os)"
  by (simp add: New_def)

lemma New_Inr:
  assumes "New ParseLevel fsys brk level outputs os = (Inr cl, os')"
  shows "brk \<noteq> None"
    and "\<exists>ws. open_outputs fsys outputs [Stdout] os = (Inr ws, os') \<and> Out (Logger cl) = MultiWriter ws"
    and "ContextLogger.breaker cl = brk"
    and "ParseLevel level = Inr (Level (Logger cl))"
    and "ReportCaller (Logger cl)"
    and "Hooks (Logger cl) = (\<lambda>_. [])"
    and "Formatter (Logger cl) = JSON \<lparr>
              TimestampFormat = ''02.01.2006 15:04:05'',
              FieldMap = [FieldKeyFile \<mapsto> ''file'',
                          FieldKeyFunc \<mapsto> ''func'',
                          FieldKeyLogrusError \<mapsto> ''logger_error'',
                          FieldKeyTime \<mapsto> ''timestamp'',
                          FieldKeyLevel \<mapsto> ''level'',
                          FieldKeyMsg \<mapsto> ''message'']\<rparr>"
  using assms
  by (auto simp: New_def Let_def log_New_def split: if_splits prod.splits sum.splits)

lemma New_Inl:
  assumes "New ParseLevel fsys brk level outputs os = (Inl err, os')" and "brk \<noteq> None"
  shows "os' = snd (open_outputs fsys outputs [Stdout] os)"
    and "fst (open_outputs fsys outputs [Stdout] os) = Inl err
       \<or> (\<exists>ws e. fst (open_outputs fsys outputs [Stdout] os) = Inr ws \<and> ParseLevel level = Inl e
            \<and> err = wrapError (''error parse level value '' @ apostrophe @ level @ apostrophe @ '': '') e)"
  using assms
  by (auto simp: New_def Let_def split: if_splits prod.splits sum.splits)

lemma New_bad_level:
  assumes "ParseLevel level = Inl e"
  shows "\<exists>err. fst (New ParseLevel fsys brk level outputs os) = Inl err"
  using assms
  by (auto simp: New_def Let_def split: if_splits prod.splits sum.splits)

subsection \<open>The constructor at concrete inputs\<close>

lemma log_ParseLevel_info: "log_ParseLevel InfoLevel = Inr log_InfoLevel"
  by (simp add: log_ParseLevel_def ToLower_def InfoLevel_def)

lemma log_ParseLevel_verbose:
  "log_ParseLevel ''verbose'' =
     Inl (errorString (''not a valid logrus Level: '' @ [CHR 0x22] @ ''verbose'' @ [CHR 0x22]))"
  by (simp add: log_ParseLevel_def ToLower_def)

lemma level_names_accepted: "\<forall>l \<in> set level_names. \<exists>lvl. log_ParseLevel l = Inr lvl"
  by (simp add: level_names_def DebugLevel_def InfoLevel_def WarnLevel_def ErrorLevel_def
      FatalLevel_def PanicLevel_def log_ParseLevel_def ToLower_def)

lemma log_ParseLevel_warn: "log_ParseLevel ''warn'' = Inr log_WarnLevel"
  by (simp add: log_ParseLevel_def ToLower_def)

lemma New_root0:
  "New log_ParseLevel fsys_ok (Some 0) InfoLevel [''app.log''] os0 = (Inr root0, os1)"
  by (simp add: New_def log_ParseLevel_info os_OpenFile_def fsys_ok_def os0_def os1_def log_New_def
      append_call_def root0_def)

lemma New_verbose:
  "New log_ParseLevel fsys_ok (Some 0) ''verbose'' [''app.log''] os0 =
     (Inl (wrapError (''error parse level value '' @ apostrophe @ ''verbose'' @ apostrophe @ '': '')
        (errorString (''not a valid logrus Level: '' @ [CHR 0x22] @ ''verbose'' @ [CHR 0x22]))),
      os1)"
  by (simp add: New_def log_ParseLevel_verbose os_OpenFile_def fsys_ok_def os0_def os1_def log_New_def
      append_call_def)

lemma New_missing_file:
  "New log_ParseLevel (fsys_without [''/var/missing/b.log'']) (Some 0) InfoLevel
       [''a.log'', ''/var/missing/b.log'', ''c.log''] os0 =
     (Inl (wrapError (''error open file path '' @ apostrophe @ ''/var/missing/b.log'' @ apostrophe @ '': '')
        (errorString ''open /var/missing/b.log: no such file or directory'')),
      \<lparr>calls = [append_call ''a.log'', append_call ''/var/missing/b.log''],
        opened = [append_call ''a.log''], closed = {}\<rparr>)"
  by (simp add: New_def log_ParseLevel_info os_OpenFile_def fsys_without_def os0_def log_New_def
      append_call_def)

subsection \<open>The output destination\<close>

text \<open>
  Claim C2, as the code has it. The writers of a logger that \<open>New\<close> returns are standard
  output followed by the files opened for the outputs, in order; standard error is not
  among the destinations of a write.
\<close>

theorem New_writes_to_Stdout:
  assumes "New ParseLevel fsys brk level outputs os = (Inr cl, os')"
  shows "destinations (Out (Logger cl)) =
           Stdout # map File [length (opened os)..<length (opened os) + length outputs]
       \<and> Stderr \<notin> set (destinations (Out (Logger cl)))"
proof -
  from New_Inr(2) [OF assms] obtain ws where
    ws: "open_outputs fsys outputs [Stdout] os = (Inr ws, os')" and out: "Out (Logger cl) = MultiWriter ws"
    by blast
  from open_outputs_Inr [OF ws]
  have "ws = Stdout # map File [length (opened os)..<length (opened os) + length outputs]" by simp
  moreover have "concat (map destinations (map File ns)) = map File ns" for ns
    by (induction ns) simp_all
  ultimately show ?thesis using out by auto
qed

theorem New_writes_to_Stdout_witness:
  "\<exists>cl os'. New log_ParseLevel fsys_ok (Some 0) InfoLevel [''app.log''] os0 = (Inr cl, os')
     \<and> destinations (Out (Logger cl)) = [Stdout, File 0]
     \<and> Stderr \<notin> set (destinations (Out (Logger cl)))"
proof -
  have "destinations (Out (Logger root0)) = [Stdout, File 0]
      \<and> Stderr \<notin> set (destinations (Out (Logger root0)))"
    using New_writes_to_Stdout [OF New_root0] by (simp add: os0_def)
  with New_root0 show ?thesis by blast
qed

subsection \<open>The shutdown channel\<close>

text \<open>
  Claim C5. With a nil shutdown channel \<open>New\<close> returns the error
  \<^verbatim>\<open>breaker can't be nil\<close> and no logger, whatever the other arguments are, and leaves the
  operating system as it was: no file is opened and no open is attempted. So whenever
  \<open>New\<close> returns a logger, the channel given was not nil, and it is the logger's channel.
\<close>

theorem New_rejects_nil_breaker:
  "New ParseLevel fsys None level outputs os = (Inl (errorString ''breaker can't be nil''), os)
   \<and> (\<forall>cl os'. New ParseLevel fsys brk level outputs os = (Inr cl, os') \<longrightarrow>
         brk \<noteq> None \<and> ContextLogger.breaker cl = brk)"
proof (intro conjI allI impI)
  show "New ParseLevel fsys None level outputs os = (Inl (errorString ''breaker can't be nil''), os)"
    by (rule New_nil)
next
  fix cl os'
  assume a: "New ParseLevel fsys brk level outputs os = (Inr cl, os')"
  from New_Inr(1) [OF a] show "brk \<noteq> None" .
  from New_Inr(3) [OF a] show "ContextLogger.breaker cl = brk" .
qed

theorem New_rejects_nil_breaker_witness:
  "New log_ParseLevel fsys_ok None InfoLevel [''app.log''] os0
     = (Inl (errorString ''breaker can't be nil''), os0)
   \<and> (\<exists>cl os'. New log_ParseLevel fsys_ok (Some 0) InfoLevel [''app.log''] os0 = (Inr cl, os')
         \<and> ContextLogger.breaker cl = Some 0)"
  using New_rejects_nil_breaker
    [where ParseLevel = log_ParseLevel and fsys = fsys_ok and level = InfoLevel
       and outputs = "[''app.log'']" and os = os0 and brk = "Some 0"]
  by (simp add: New_root0)

subsection \<open>The level string\<close>

text \<open>
  Claim C7, as the code has it. The level strings that make \<open>New\<close> fail are those the
  library's parser rejects, whatever the parser is. For such a string \<open>New\<close> returns an
  error and no logger; and when the call reaches the level (the shutdown channel is not
  nil and every output opens), the error is the parser's, wrapped behind
  \<^verbatim>\<open>error parse level value '<level>': \<close>, so its message contains the level string.
\<close>

theorem New_bad_level_message:
  assumes "ParseLevel level = Inl e"
  shows "(\<exists>err. fst (New ParseLevel fsys brk level outputs os) = Inl err)
     \<and> (brk \<noteq> None \<and> (\<forall>v \<in> set outputs. fsys v = None) \<longrightarrow>
          fst (New ParseLevel fsys brk level outputs os) =
            Inl (wrapError (''error parse level value '' @ apostrophe @ level @ apostrophe @ '': '') e)
          \<and> sublist level (Error (wrapError (''error parse level value '' @ apostrophe @ level @ apostrophe @ '': '') e)))"
proof (intro conjI impI)
  show "\<exists>err. fst (New ParseLevel fsys brk level outputs os) = Inl err"
    using assms by (rule New_bad_level)
next
  assume h: "brk \<noteq> None \<and> (\<forall>v \<in> set outputs. fsys v = None)"
  then obtain ws where "fst (open_outputs fsys outputs [Stdout] os) = Inr ws"
    using open_outputs_all_ok by blast
  with h assms show "fst (New ParseLevel fsys brk level outputs os) =
      Inl (wrapError (''error parse level value '' @ apostrophe @ level @ apostrophe @ '': '') e)"
    by (auto simp: New_def Let_def split: prod.splits)
next
  have "Error (wrapError (''error parse level value '' @ apostrophe @ level @ apostrophe @ '': '') e)
      = (''error parse level value '' @ apostrophe) @ level @ (apostrophe @ '': '' @ Error e)"
    by simp
  then show "sublist level (Error (wrapError (''error parse level value '' @ apostrophe @ level @ apostrophe @ '': '') e))"
    by (simp only: sublist_appendI)
qed

theorem New_bad_level_message_witness:
  "(\<exists>e. log_ParseLevel ''verbose'' = Inl e)
   \<and> (\<exists>err. fst (New log_ParseLevel fsys_ok (Some 0) ''verbose'' [''app.log''] os0) = Inl err
         \<and> sublist ''verbose'' (Error err))"
proof -
  have a: "Some (0::nat) \<noteq> None \<and> (\<forall>v \<in> set [''app.log'']. fsys_ok v = None)"
    by (simp add: fsys_ok_def)
  from New_bad_level_message
    [where ParseLevel = log_ParseLevel and level = "''verbose''" and fsys = fsys_ok
       and brk = "Some 0" and outputs = "[''app.log'']" and os = os0, OF log_ParseLevel_verbose] a
  have "\<exists>err. fst (New log_ParseLevel fsys_ok (Some 0) ''verbose'' [''app.log''] os0) = Inl err
         \<and> sublist ''verbose'' (Error err)"
    by blast
  with log_ParseLevel_verbose show ?thesis by blast
qed

text \<open>
  Claim C7, as stated, fails: \<^verbatim>\<open>warn\<close> is not one of the six level names the package
  declares, yet the library's parser accepts it, and \<open>New\<close>, given a channel, returns a
  logger at level warning for it.
\<close>

theorem New_bad_level_counterexample:
  "''warn'' \<notin> set level_names
   \<and> (\<exists>cl os'. New log_ParseLevel fsys_ok (Some 0) ''warn'' [] os0 = (Inr cl, os')
         \<and> Level (Logger cl) = log_WarnLevel)"
  by (simp add: level_names_def DebugLevel_def InfoLevel_def WarnLevel_def ErrorLevel_def
      FatalLevel_def PanicLevel_def New_def log_ParseLevel_warn)

subsection \<open>The formatter and the mode of the files\<close>

text \<open>
  Claim C8. A logger that \<open>New\<close> returns has the JSON formatter with the timestamp layout
  \<^verbatim>\<open>02.01.2006 15:04:05\<close>, which is the pattern DD.MM.YYYY HH:MM:SS, and with the six
  field keys renamed to file, func, logger_error, timestamp, level and message; and the
  calls of \<open>os.OpenFile\<close> made by the constructor are one per output, in order, each with
  the flags append, write-only and create and the permission 0600 (octal, 384), and
  each of them opened its file.
\<close>

theorem New_formatter_and_file_mode:
  assumes "New ParseLevel fsys brk level outputs os = (Inr cl, os')"
  shows "(\<exists>f. Formatter (Logger cl) = JSON f
           \<and> TimestampFormat f = ''02.01.2006 15:04:05''
           \<and> layout_pattern (TimestampFormat f) = ''DD.MM.YYYY HH:MM:SS''
           \<and> FieldMap f FieldKeyFile = Some ''file''
           \<and> FieldMap f FieldKeyFunc = Some ''func''
           \<and> FieldMap f FieldKeyLogrusError = Some ''logger_error''
           \<and> FieldMap f FieldKeyTime = Some ''timestamp''
           \<and> FieldMap f FieldKeyLevel = Some ''level''
           \<and> FieldMap f FieldKeyMsg = Some ''message'')
       \<and> calls os' = calls os @ map (\<lambda>v. \<lparr>path = v, flag = {O_APPEND, O_WRONLY, O_CREATE}, perm = 384\<rparr>) outputs
       \<and> opened os' = opened os @ map (\<lambda>v. \<lparr>path = v, flag = {O_APPEND, O_WRONLY, O_CREATE}, perm = 384\<rparr>) outputs
       \<and> perm_0600 = 6 * 64"
proof -
  from New_Inr(2) [OF assms] obtain ws where
    ws: "open_outputs fsys outputs [Stdout] os = (Inr ws, os')" by blast
  have ac: "append_call = (\<lambda>v. \<lparr>path = v, flag = {O_APPEND, O_WRONLY, O_CREATE}, perm = 384\<rparr>)"
    by (rule ext) (simp add: append_call_def perm_0600_def)
  from open_outputs_Inr [OF ws] have all: "\<forall>v \<in> set outputs. fsys v = None"
    and c: "calls os' = calls os @ map append_call outputs" by simp_all
  from all have tw: "takeWhile (\<lambda>v. fsys v = None) outputs = outputs" by (simp add: takeWhile_eq_all_conv)
  have "opened os' = opened os @ map append_call outputs"
    using open_outputs_opened [of fsys outputs "[Stdout]" os] ws tw by simp
  with c show ?thesis
    using New_Inr(7) [OF assms] by (simp add: ac perm_0600_def)
qed

theorem New_formatter_and_file_mode_witness:
  "\<exists>cl os'. New log_ParseLevel fsys_ok (Some 0) InfoLevel [''app.log''] os0 = (Inr cl, os')
     \<and> (\<exists>f. Formatter (Logger cl) = JSON f \<and> layout_pattern (TimestampFormat f) = ''DD.MM.YYYY HH:MM:SS''
           \<and> FieldMap f FieldKeyMsg = Some ''message'')
     \<and> calls os' = [\<lparr>path = ''app.log'', flag = {O_APPEND, O_WRONLY, O_CREATE}, perm = 384\<rparr>]"
proof -
  from New_formatter_and_file_mode [OF New_root0]
  have "(\<exists>f. Formatter (Logger root0) = JSON f \<and> layout_pattern (TimestampFormat f) = ''DD.MM.YYYY HH:MM:SS''
           \<and> FieldMap f FieldKeyMsg = Some ''message'')
     \<and> calls os1 = [\<lparr>path = ''app.log'', flag = {O_APPEND, O_WRONLY, O_CREATE}, perm = 384\<rparr>]"
    by (auto simp: os0_def)
  with New_root0 show ?thesis by blast
qed

subsection \<open>Files opened before an error\<close>

text \<open>
  Claim C10. When \<open>New\<close>, given a channel, returns an error, the files it opened before
  the error (one per output up to the first that does not open) are still open in the
  state it returns: they were appended to the open files, nothing was closed, and the
  open files are those that were open before together with the new descriptors. The
  state before the call is one in which only opened files have been closed.
\<close>

theorem New_error_keeps_files_open:
  assumes "New ParseLevel fsys brk level outputs os = (Inl err, os')"
    and "brk \<noteq> None"
    and "closed os \<subseteq> {fd. fd < length (opened os)}"
  shows "opened os' = opened os @ map append_call (takeWhile (\<lambda>v. fsys v = None) outputs)
       \<and> closed os' = closed os
       \<and> open_files os' = open_files os \<union>
            {fd. length (opened os) \<le> fd
               \<and> fd < length (opened os) + length (takeWhile (\<lambda>v. fsys v = None) outputs)}"
proof -
  from New_Inl(1) [OF assms(1,2)] have os': "os' = snd (open_outputs fsys outputs [Stdout] os)" .
  have a: "opened os' = opened os @ map append_call (takeWhile (\<lambda>v. fsys v = None) outputs)"
    unfolding os' by (rule open_outputs_opened)
  have b: "closed os' = closed os"
    unfolding os' by (rule open_outputs_closed)
  have "open_files os' = open_files os \<union>
            {fd. length (opened os) \<le> fd
               \<and> fd < length (opened os) + length (takeWhile (\<lambda>v. fsys v = None) outputs)}"
    using assms(3) by (auto simp: open_files_def a b)
  with a b show ?thesis by simp
qed

theorem New_error_keeps_files_open_witness:
  "(\<exists>err os'. New log_ParseLevel (fsys_without [''/var/missing/b.log'']) (Some 0) InfoLevel
        [''a.log'', ''/var/missing/b.log'', ''c.log''] os0 = (Inl err, os')
      \<and> opened os' = [append_call ''a.log''] \<and> open_files os' = {0})
   \<and> (\<exists>err os'. New log_ParseLevel fsys_ok (Some 0) ''verbose'' [''app.log''] os0 = (Inl err, os')
      \<and> opened os' = [append_call ''app.log''] \<and> open_files os' = {0})"
proof -
  have c: "closed os0 \<subseteq> {fd. fd < length (opened os0)}" by (simp add: os0_def)
  have s: "Some (0::nat) \<noteq> None" by simp
  have z: "{fd::nat. fd < Suc 0} = {0}" by auto
  have o: "open_files os0 = {}" "opened os0 = []" by (simp_all add: open_files_def os0_def)
  have t3: "takeWhile (\<lambda>v. fsys_without [''/var/missing/b.log''] v = None)
      [''a.log'', ''/var/missing/b.log'', ''c.log''] = [''a.log'']"
    by (simp add: fsys_without_def)
  have t2: "takeWhile (\<lambda>v. fsys_ok v = None) [''app.log''] = [''app.log'']"
    by (simp add: fsys_ok_def)
  let ?osA = "\<lparr>calls = [append_call ''a.log'', append_call ''/var/missing/b.log''],
     opened = [append_call ''a.log''], closed = {}\<rparr>"
  from New_error_keeps_files_open [OF New_missing_file s c]
  have A: "opened ?osA = [append_call ''a.log''] \<and> open_files ?osA = {0}"
    unfolding t3 o by (simp add: z)
  from New_error_keeps_files_open [OF New_verbose s c]
  have B: "opened os1 = [append_call ''app.log''] \<and> open_files os1 = {0}"
    unfolding t2 o by (simp add: z)
  from New_missing_file A New_verbose B show ?thesis by blast
qed

end
